theory Spec2Isabelle
  imports Main "HOL-Library.Word" "HOL-Library.Multiset" "HOL-Library.Sublist"
begin

section \<open>JavaScript counters\<close>

text \<open>
  A JavaScript number is a double. A counter that starts at 0 and is only ever
  incremented holds a non-negative integer, and \<open>x++\<close> is exact as long as
  \<open>x < 2^53\<close>; \<open>2^53 + 1\<close> is not a double and rounds back to \<open>2^53\<close>, so from
  there on \<open>x++\<close> leaves the counter where it is. Such a counter never exceeds
  \<open>2^53\<close>.
\<close>

definition two53 :: nat where
  "two53 = 2 ^ 53"

definition js_succ :: "nat \<Rightarrow> nat" where
  "js_succ x = (if x < two53 then x + 1 else x)"

section \<open>The challenge solver (\<open>generateToken\<close>)\<close>

text \<open>
  Both server files (\<open>index.js\<close> and the second, unnamed file, called the
  \<^emph>\<open>pooled\<close> server below because it keeps per-proxy counters) fetch a JSON
  document \<open>{challenge, salt, maxnumber, signature}\<close> and brute-force the number
  \<open>i\<close> with \<open>sha256(salt + i) = challenge\<close>.

  The fields are typed as the verification endpoint documents them: strings and
  an integer, each possibly absent (\<open>undefined\<close> after destructuring). The hash
  \<open>crypto.createHash('sha256')...digest('hex')\<close> is a library function and is
  taken as a parameter \<open>H\<close>.
\<close>

record verify_response =
  challenge :: "string option"
  salt :: "string option"
  maxnumber :: "int option"
  signature :: "string option"

text \<open>The JSON envelope of a token; the token is \<open>'alt:' + base64(JSON.stringify(payload))\<close>.\<close>

record payload =
  algorithm :: string
  pl_challenge :: string
  pl_salt :: string
  number :: nat
  pl_signature :: "string option"
  took :: string

datatype token = Alt payload

text \<open>
  How a call ends without a token: one constructor per \<open>console.error\<close> branch that
  ends in \<open>null\<close>, and \<open>NeverReturns\<close> for a search loop that does not end (the loop
  is synchronous, so the call never comes back).
\<close>

datatype token_error =
    InvalidChallenge
  | FailedToSolve
  | NeverReturns
  | ParseError
  | RequestTimeout
  | RequestError
  | VerifyRequestFailed
  | FetchError

text \<open>\<open>String(i)\<close> for a non-negative integer, as used by \<open>salt + i\<close>.\<close>

fun decimal :: "nat \<Rightarrow> string" where
  "decimal n =
     (if n < 10 then [''0123456789'' ! n]
      else decimal (n div 10) @ [''0123456789'' ! (n mod 10)])"

declare decimal.simps [simp del]

text \<open>
  The loop \<open>for (let i = 0; i <= maxnumber; i++)\<close>, started at \<open>i\<close>. It ends with the
  first matching number, or without one when \<open>i\<close> has passed the bound; when \<open>i++\<close>
  no longer changes \<open>i\<close> the next round repeats this one and the loop never ends. The
  second component lists the strings that were hashed, in order (in the last case up
  to the round that repeats).
\<close>

datatype search = Found nat | NotFound | Forever

function brute_force ::
  "(string \<Rightarrow> string) \<Rightarrow> string \<Rightarrow> string \<Rightarrow> int \<Rightarrow> nat \<Rightarrow> search \<times> string list" where
  "brute_force H c s M i =
     (if int i \<le> M then
        (if H (s @ decimal i) = c then (Found i, [s @ decimal i])
         else if js_succ i = i then (Forever, [s @ decimal i])
         else (case brute_force H c s M (js_succ i) of
                 (r, hs) \<Rightarrow> (r, (s @ decimal i) # hs)))
      else (NotFound, []))"
  by pat_completeness auto
termination
  by (relation "measure (\<lambda>(H, c, s, M, i). nat (M + 1 - int i))")
     (auto simp add: js_succ_def split: if_splits)

declare brute_force.simps [simp del]

text \<open>\<open>signature || null\<close>\<close>

definition or_null :: "string option \<Rightarrow> string option" where
  "or_null sg = (case sg of None \<Rightarrow> None | Some x \<Rightarrow> if x = [] then None else Some x)"

text \<open>
  The part of \<open>generateToken\<close> after the response body has been parsed; it is the
  same text in both files except for the \<open>took\<close> label. The guard is
  \<open>!challenge || !salt || maxnumber === undefined\<close>: a string is falsy when it is
  absent or empty.
\<close>

definition solve_challenge ::
  "string \<Rightarrow> (string \<Rightarrow> string) \<Rightarrow> verify_response \<Rightarrow> (token_error + token) \<times> string list" where
  "solve_challenge label H r =
     (case (challenge r, salt r, maxnumber r) of
        (Some c, Some s, Some M) \<Rightarrow>
          if c = [] \<or> s = [] then (Inl InvalidChallenge, [])
          else (case brute_force H c s M 0 of
                  (Found i, hs) \<Rightarrow>
                    (Inr (Alt \<lparr>algorithm = ''SHA-256'', pl_challenge = c, pl_salt = s,
                               number = i, pl_signature = or_null (signature r),
                               took = label\<rparr>), hs)
                | (NotFound, hs) \<Rightarrow> (Inl FailedToSolve, hs)
                | (Forever, hs) \<Rightarrow> (Inl NeverReturns, hs))
      | _ \<Rightarrow> (Inl InvalidChallenge, []))"

text \<open>
  \<open>index.js\<close>: the request times out, errors, or ends with a body; \<open>JSON.parse\<close>
  of the body throws (\<open>None\<close>) or yields the fields.
\<close>

datatype request_outcome = Timeout | ReqError | Body "verify_response option"

definition generateToken_index ::
  "(string \<Rightarrow> string) \<Rightarrow> request_outcome \<Rightarrow> (token_error + token) \<times> string list" where
  "generateToken_index H out =
     (case out of
        Timeout \<Rightarrow> (Inl RequestTimeout, [])
      | ReqError \<Rightarrow> (Inl RequestError, [])
      | Body None \<Rightarrow> (Inl ParseError, [])
      | Body (Some r) \<Rightarrow> solve_challenge ''cloud-proxy'' H r)"

text \<open>
  The pooled server: \<open>fetch\<close> throws, or yields a response with its \<open>ok\<close> flag;
  \<open>resp.json()\<close> throws (\<open>None\<close>) or yields the fields. The throttle that precedes
  the fetch is modelled in its own section.
\<close>

datatype fetch_outcome = FetchThrows | Response bool "verify_response option"

definition generateToken_pooled ::
  "(string \<Rightarrow> string) \<Rightarrow> fetch_outcome \<Rightarrow> (token_error + token) \<times> string list" where
  "generateToken_pooled H out =
     (case out of
        FetchThrows \<Rightarrow> (Inl FetchError, [])
      | Response ok body \<Rightarrow>
          if \<not> ok then (Inl VerifyRequestFailed, [])
          else (case body of
                  None \<Rightarrow> (Inl FetchError, [])
                | Some r \<Rightarrow> solve_challenge ''cloud'' H r))"

text \<open>The token the caller obtains, if any.\<close>

definition resolved :: "(token_error + token) \<times> string list \<Rightarrow> token option" where
  "resolved res = (case fst res of Inl e \<Rightarrow> None | Inr t \<Rightarrow> Some t)"

section \<open>Proxy selection\<close>

text \<open>
  \<open>index.js\<close> keeps the proxy URLs and a counter that is incremented at every
  selection and never reduced; \<open>getNextProxy\<close> returns the URL, or \<open>null\<close> when the
  list is empty.
\<close>

record rotation =
  proxyList :: "string list"
  proxyIndex :: nat

definition getNextProxy :: "rotation \<Rightarrow> string option \<times> rotation" where
  "getNextProxy g =
     (if length (proxyList g) = 0 then (None, g)
      else (Some (proxyList g ! (proxyIndex g mod length (proxyList g))),
            g\<lparr>proxyIndex := js_succ (proxyIndex g)\<rparr>))"

text \<open>
  The pooled server keeps, beside the URLs, one entry \<open>{active, lastTokenAt}\<close> per proxy
  and a cursor that starts at 0 and is reduced modulo the list length at every
  selection, so that it stays below the length of the list, where \<open>rrCursor + 1\<close> is
  exact; \<open>pickProxyIndex\<close> returns an index, or \<open>-1\<close> when the list is empty.
\<close>

record proxy_entry =
  active :: int
  lastTokenAt :: int

record pool =
  proxyUrls :: "string list"
  proxyState :: "proxy_entry list"
  rrCursor :: nat

definition pickProxyIndex :: "pool \<Rightarrow> int \<times> pool" where
  "pickProxyIndex g =
     (let n = length (proxyUrls g) in
      if n = 0 then (- 1, g)
      else (int (rrCursor g mod n), g\<lparr>rrCursor := (rrCursor g + 1) mod n\<rparr>))"

text \<open>\<open>k\<close> consecutive selections, threading the state.\<close>

fun getNextProxy_times :: "nat \<Rightarrow> rotation \<Rightarrow> string option list \<times> rotation" where
  "getNextProxy_times 0 g = ([], g)"
| "getNextProxy_times (Suc k) g =
     (case getNextProxy g of (x, g') \<Rightarrow>
        (case getNextProxy_times k g' of (xs, g'') \<Rightarrow> (x # xs, g'')))"

fun pickProxyIndex_times :: "nat \<Rightarrow> pool \<Rightarrow> int list \<times> pool" where
  "pickProxyIndex_times 0 g = ([], g)"
| "pickProxyIndex_times (Suc k) g =
     (case pickProxyIndex g of (x, g') \<Rightarrow>
        (case pickProxyIndex_times k g' of (xs, g'') \<Rightarrow> (x # xs, g'')))"

text \<open>\<open>proxyIdx >= 0 ? proxyList[proxyIdx] : null\<close>\<close>

definition proxy_at :: "pool \<Rightarrow> int \<Rightarrow> string option" where
  "proxy_at g i = (if 0 \<le> i \<and> nat i < length (proxyUrls g) then Some (proxyUrls g ! nat i) else None)"


section \<open>Region check and close frames\<close>

text \<open>
  The pattern \<open>/\.moomoo\.io$/i\<close>: the region ends in \<open>.moomoo.io\<close>, letter case
  ignored. In a pattern without the \<open>u\<close> flag only the ASCII letters fold onto the
  ASCII letters of the pattern.
\<close>

definition ascii_lower :: "char \<Rightarrow> char" where
  "ascii_lower c =
     (let n = (of_char c :: nat) in if 65 \<le> n \<and> n \<le> 90 then char_of (n + 32) else c)"

definition matches_moomoo :: "string \<Rightarrow> bool" where
  "matches_moomoo region = suffix ''.moomoo.io'' (map ascii_lower region)"

text \<open>
  The check of both connection handlers, \<open>!region || !/\.moomoo\.io$/i.test(region)\<close>,
  negated: \<open>searchParams.get\<close> yields \<open>null\<close> when the parameter is absent, and the
  empty string is falsy.
\<close>

definition region_ok :: "string option \<Rightarrow> bool" where
  "region_ok region =
     (case region of None \<Rightarrow> False | Some r \<Rightarrow> r \<noteq> [] \<and> matches_moomoo r)"

text \<open>
  A close reason is a JavaScript string: a sequence of UTF-16 code units, which is what
  \<open>slice\<close> counts. On the wire it is UTF-8; \<open>utf8_length\<close> is \<open>Buffer.byteLength\<close>:
  one byte below \<open>0x80\<close>, two below \<open>0x800\<close>, four for a surrogate pair, three
  otherwise (a lone surrogate is written as U+FFFD).
\<close>

type_synonym js_string = "16 word list"

fun utf8_length :: "js_string \<Rightarrow> nat" where
  "utf8_length [] = 0"
| "utf8_length [u] = (if u < 0x80 then 1 else if u < 0x800 then 2 else 3)"
| "utf8_length (u # v # ws) =
     (if u < 0x80 then 1 + utf8_length (v # ws)
      else if u < 0x800 then 2 + utf8_length (v # ws)
      else if 0xD800 \<le> u \<and> u < 0xDC00 \<and> 0xDC00 \<le> v \<and> v < 0xE000 then 4 + utf8_length ws
      else 3 + utf8_length (v # ws))"

text \<open>An ASCII literal of the source as a JavaScript string.\<close>

definition lit :: "string \<Rightarrow> js_string" where
  "lit s = map (\<lambda>c. of_nat (of_char c)) s"

text \<open>The conditional expression that computes \<open>safeCode\<close> in \<open>index.js\<close>.\<close>

definition safeCode :: "int \<Rightarrow> int" where
  "safeCode code =
     (if (1000 \<le> code \<and> code \<le> 1003) \<or> (1007 \<le> code \<and> code \<le> 1014) \<or>
         (3000 \<le> code \<and> code \<le> 4999)
      then code else 1000)"

text \<open>
  The library's \<open>close(code, reason)\<close> throws on a status code it may not send and on a
  reason of more than 123 bytes.
\<close>

definition sendable_code :: "int \<Rightarrow> bool" where
  "sendable_code code =
     ((1000 \<le> code \<and> code \<le> 1014 \<and> code \<noteq> 1004 \<and> code \<noteq> 1005 \<and> code \<noteq> 1006) \<or>
      (3000 \<le> code \<and> code \<le> 4999))"

definition close_throws :: "int \<Rightarrow> js_string \<Rightarrow> bool" where
  "close_throws code reason = (\<not> sendable_code code \<or> 123 < utf8_length reason)"

section \<open>Sockets, calls and events\<close>

datatype ready_state = CONNECTING | OPEN | CLOSING | CLOSED

type_synonym message = string

text \<open>The calls a handler makes on the client socket and on the upstream socket.\<close>

datatype client_call =
    Send message
  | Close int js_string
  | ClosePlain
  | Terminate

datatype upstream_call =
    USend message
  | UClose
  | UPing

text \<open>
  What the event loop delivers to one connection: the resolution of the awaited
  \<open>generateToken\<close> (a token or \<open>null\<close>), the end of the jitter sleep (pooled server
  only), the keepalive timer, and the events of the two sockets.
\<close>

datatype event =
    TokenResolved "token option"
  | JitterElapsed
  | KeepAliveTick
  | ClientMessage message
  | ClientClose
  | ClientError
  | UpstreamOpen
  | UpstreamMessage message
  | UpstreamClose int js_string
  | UpstreamError

text \<open>Where the \<open>async\<close> connection handler stands.\<close>

datatype stage = AwaitingToken | AwaitingJitter | Wired | Returned

text \<open>
  \<open>close()\<close> and \<open>terminate()\<close> of the library leave an open or connecting socket in
  state \<open>CLOSING\<close> and do nothing to a closed one.
\<close>

definition closing :: "ready_state \<Rightarrow> ready_state" where
  "closing st = (if st = CLOSED then CLOSED else CLOSING)"

text \<open>
  What the two servers share per connection: the region, the sockets with the calls made
  on them, the flag \<open>upstreamReady\<close>, whether the keepalive timer is set, and the dial
  (region and token of the URL \<open>wss://region/?token=...\<close>) once made. \<open>upstream_state\<close>
  is \<open>None\<close> until \<open>new WebSocket\<close> has run.
\<close>

record conn =
  region :: string
  stage :: stage
  token_requests :: nat
  dialed :: "(string \<times> token) option"
  upstreamReady :: bool
  keepAlive :: bool
  client_state :: ready_state
  upstream_state :: "ready_state option"
  client_calls :: "client_call list"
  upstream_calls :: "upstream_call list"

text \<open>The outcome of the synchronous first part of a connection handler.\<close>

datatype 'a admission = Rejected "client_call list" | Accepted 'a


section \<open>The connection handler of \<open>index.js\<close>\<close>

record session = conn +
  proxyUrl :: "string option"
  messageQueue :: "message list"

text \<open>
  The handler up to its first \<open>await\<close>: the region check, then the proxy selection and
  the call of \<open>generateToken\<close>. No listener is attached to the client socket yet.
\<close>

definition connection :: "string option \<Rightarrow> rotation \<Rightarrow> rotation \<times> session admission" where
  "connection reg g =
     (case (region_ok reg, reg) of
        (True, Some r) \<Rightarrow>
          (case getNextProxy g of (url, g') \<Rightarrow>
            (g', Accepted \<lparr>region = r, stage = AwaitingToken, token_requests = 1,
                           dialed = None, upstreamReady = False, keepAlive = False,
                           client_state = OPEN, upstream_state = None,
                           client_calls = [], upstream_calls = [],
                           proxyUrl = url, messageQueue = []\<rparr>))
      | _ \<Rightarrow> (g, Rejected [Close 1008 (lit ''Invalid region'')]))"

text \<open>
  The handler after \<open>await generateToken(agent)\<close>: on \<open>null\<close> it closes the client with
  1011 and returns; otherwise it creates the upstream socket and attaches every listener.
\<close>

definition after_token :: "token option \<Rightarrow> session \<Rightarrow> session" where
  "after_token tok s =
     (case tok of
        None \<Rightarrow>
          s\<lparr>client_calls := client_calls s @ [Close 1011 (lit ''Token generation failed'')],
            client_state := closing (client_state s),
            stage := Returned\<rparr>
      | Some t \<Rightarrow>
          s\<lparr>dialed := Some (region s, t),
            upstream_state := Some CONNECTING,
            stage := Wired\<rparr>)"

text \<open>\<open>while (messageQueue.length > 0) upstream.send(messageQueue.shift())\<close>\<close>

fun flush :: "message list \<Rightarrow> upstream_call list \<Rightarrow> upstream_call list" where
  "flush [] calls = calls"
| "flush (msg # queue) calls = flush queue (calls @ [USend msg])"

text \<open>\<open>upstream.on('open', ...)\<close>\<close>

definition on_upstream_open :: "session \<Rightarrow> session" where
  "on_upstream_open s =
     s\<lparr>upstreamReady := True, keepAlive := True,
       upstream_calls := flush (messageQueue s) (upstream_calls s),
       messageQueue := []\<rparr>"

text \<open>The timer callback set by the open handler.\<close>

definition on_keepalive :: "session \<Rightarrow> session" where
  "on_keepalive s =
     (if upstream_state s = Some OPEN then s\<lparr>upstream_calls := upstream_calls s @ [UPing]\<rparr>
      else s)"

text \<open>\<open>upstream.on('message', ...)\<close>\<close>

definition on_upstream_message :: "message \<Rightarrow> session \<Rightarrow> session" where
  "on_upstream_message d s =
     (if client_state s = OPEN then s\<lparr>client_calls := client_calls s @ [Send d]\<rparr> else s)"

text \<open>
  \<open>upstream.on('close', ...)\<close>: the client is closed with \<open>safeCode\<close> and
  \<open>reasonStr.slice(0, 123)\<close>, and terminated when that call throws.
\<close>

definition on_upstream_close :: "int \<Rightarrow> js_string \<Rightarrow> session \<Rightarrow> session" where
  "on_upstream_close code reasonStr s =
     (let s1 = s\<lparr>upstreamReady := False, keepAlive := False\<rparr> in
      if client_state s = OPEN then
        s1\<lparr>client_calls :=
             client_calls s @
               (if close_throws (safeCode code) (take 123 reasonStr)
                then [Close (safeCode code) (take 123 reasonStr), Terminate]
                else [Close (safeCode code) (take 123 reasonStr)]),
           client_state := CLOSING\<rparr>
      else s1)"

text \<open>\<open>upstream.on('error', ...)\<close>\<close>

definition on_upstream_error :: "session \<Rightarrow> session" where
  "on_upstream_error s =
     (let s1 = s\<lparr>upstreamReady := False, keepAlive := False\<rparr> in
      if client_state s = OPEN then
        s1\<lparr>client_calls := client_calls s @ [Close 1011 (lit ''Upstream error'')],
           client_state := CLOSING\<rparr>
      else s1)"

text \<open>\<open>clientWs.on('message', ...)\<close>\<close>

definition on_client_message :: "message \<Rightarrow> session \<Rightarrow> session" where
  "on_client_message d s =
     (if upstreamReady s \<and> upstream_state s = Some OPEN
      then s\<lparr>upstream_calls := upstream_calls s @ [USend d]\<rparr>
      else s\<lparr>messageQueue := messageQueue s @ [d]\<rparr>)"

text \<open>\<open>clientWs.on('close', ...)\<close>\<close>

definition on_client_close :: "session \<Rightarrow> session" where
  "on_client_close s =
     (let s1 = s\<lparr>keepAlive := False\<rparr> in
      if upstream_state s = Some OPEN
      then s1\<lparr>upstream_calls := upstream_calls s @ [UClose], upstream_state := Some CLOSING\<rparr>
      else s1)"

text \<open>
  One event. A socket event reaches a handler only when the socket exists and the
  listener is attached, which in \<open>index.js\<close> is from stage \<open>Wired\<close> on; the library
  sets \<open>readyState\<close> before it emits \<open>open\<close> and \<open>close\<close>, and an upstream \<open>error\<close>
  leaves the socket closing.
\<close>

fun step :: "event \<Rightarrow> session \<Rightarrow> session" where
  "step (TokenResolved tok) s = (if stage s = AwaitingToken then after_token tok s else s)"
| "step JitterElapsed s = s"
| "step KeepAliveTick s = (if keepAlive s then on_keepalive s else s)"
| "step (ClientMessage d) s = (if stage s = Wired then on_client_message d s else s)"
| "step ClientClose s =
     (if stage s = Wired then on_client_close (s\<lparr>client_state := CLOSED\<rparr>)
      else s\<lparr>client_state := CLOSED\<rparr>)"
| "step ClientError s = s"
| "step UpstreamOpen s =
     (if upstream_state s = Some CONNECTING
      then on_upstream_open (s\<lparr>upstream_state := Some OPEN\<rparr>) else s)"
| "step (UpstreamMessage d) s =
     (if upstream_state s = Some OPEN \<or> upstream_state s = Some CLOSING
      then on_upstream_message d s else s)"
| "step (UpstreamClose code reasonStr) s =
     (if upstream_state s = None \<or> upstream_state s = Some CLOSED then s
      else on_upstream_close code reasonStr (s\<lparr>upstream_state := Some CLOSED\<rparr>))"
| "step UpstreamError s =
     (if upstream_state s = None \<or> upstream_state s = Some CLOSED then s
      else on_upstream_error (s\<lparr>upstream_state := Some CLOSING\<rparr>))"

fun run :: "event list \<Rightarrow> session \<Rightarrow> session" where
  "run [] s = s"
| "run (e # es) s = run es (step e s)"



text \<open>A connection that was admitted, followed by a list of events.\<close>

definition session_after :: "rotation \<times> session admission \<Rightarrow> event list \<Rightarrow> session option" where
  "session_after adm es =
     (case adm of (g, Accepted s) \<Rightarrow> Some (run es s) | (g, Rejected calls) \<Rightarrow> None)"


section \<open>The connection handler of the pooled server\<close>

text \<open>
  Beside the shared fields: the index of the chosen proxy (\<open>-1\<close> for none), the token
  held across the jitter sleep, and whether the three client listeners
  (\<open>message\<close>, \<open>close\<close>, \<open>error\<close>) are attached; \<open>cleanup\<close> detaches them. The pool
  is global, so the handlers work on the pool and the session together.
\<close>

record psession = conn +
  proxyIdx :: int
  pending :: "token option"
  client_listeners :: bool

text \<open>
  \<open>if (proxyIdx >= 0 && proxyState[proxyIdx]) proxyState[proxyIdx].active++\<close> and the
  same with \<open>active--\<close>.
\<close>

definition add_active :: "int \<Rightarrow> int \<Rightarrow> pool \<Rightarrow> pool" where
  "add_active d i g =
     (if 0 \<le> i \<and> nat i < length (proxyState g)
      then g\<lparr>proxyState :=
              (proxyState g)[nat i := (proxyState g ! nat i)
                 \<lparr>active := active (proxyState g ! nat i) + d\<rparr>]\<rparr>
      else g)"

text \<open>
  The handler up to its first \<open>await\<close>: region check, proxy selection, the increment
  of the proxy's \<open>active\<close> count, and the call of \<open>generateToken\<close>.
\<close>

definition pconnection :: "string option \<Rightarrow> pool \<Rightarrow> pool \<times> psession admission" where
  "pconnection reg g =
     (case (region_ok reg, reg) of
        (True, Some r) \<Rightarrow>
          (case pickProxyIndex g of (idx, g') \<Rightarrow>
            (add_active 1 idx g',
             Accepted \<lparr>region = r, stage = AwaitingToken, token_requests = 1,
                       dialed = None, upstreamReady = False, keepAlive = False,
                       client_state = OPEN, upstream_state = None,
                       client_calls = [], upstream_calls = [],
                       proxyIdx = idx, pending = None, client_listeners = False\<rparr>))
      | _ \<Rightarrow> (g, Rejected [ClosePlain]))"

text \<open>
  After \<open>await generateToken(agent, proxyIdx)\<close>: on \<open>null\<close> the count is decremented,
  the client closed and the handler returns; otherwise the jitter sleep starts.
\<close>

definition pafter_token :: "token option \<Rightarrow> pool \<times> psession \<Rightarrow> pool \<times> psession" where
  "pafter_token tok gs =
     (case gs of (g, s) \<Rightarrow>
       (case tok of
          None \<Rightarrow>
            (add_active (- 1) (proxyIdx s) g,
             s\<lparr>client_calls := client_calls s @ [ClosePlain],
               client_state := closing (client_state s),
               stage := Returned\<rparr>)
        | Some t \<Rightarrow> (g, s\<lparr>pending := Some t, stage := AwaitingJitter\<rparr>)))"

text \<open>
  After the jitter sleep: the upstream socket is created and the client listeners and
  the upstream listeners are attached.
\<close>

definition pafter_jitter :: "pool \<times> psession \<Rightarrow> pool \<times> psession" where
  "pafter_jitter gs =
     (case gs of (g, s) \<Rightarrow>
       (case pending s of
          None \<Rightarrow> (g, s)
        | Some t \<Rightarrow>
            (g, s\<lparr>dialed := Some (region s, t),
                  upstream_state := Some CONNECTING,
                  client_listeners := True,
                  stage := Wired\<rparr>)))"

text \<open>\<open>cleanup\<close>\<close>

definition cleanup :: "pool \<times> psession \<Rightarrow> pool \<times> psession" where
  "cleanup gs =
     (case gs of (g, s) \<Rightarrow>
       (add_active (- 1) (proxyIdx s) g,
        s\<lparr>keepAlive := False, client_listeners := False\<rparr>))"

text \<open>\<open>onUpstreamMessage\<close>\<close>

definition onUpstreamMessage :: "message \<Rightarrow> psession \<Rightarrow> psession" where
  "onUpstreamMessage msg s =
     (if client_state s = OPEN then s\<lparr>client_calls := client_calls s @ [Send msg]\<rparr> else s)"

text \<open>\<open>onClientMessage\<close>\<close>

definition onClientMessage :: "message \<Rightarrow> psession \<Rightarrow> psession" where
  "onClientMessage msg s =
     (if upstreamReady s \<and> upstream_state s = Some OPEN
      then s\<lparr>upstream_calls := upstream_calls s @ [USend msg]\<rparr>
      else s)"

text \<open>\<open>onClientClose\<close>: \<open>cleanup()\<close>, then \<open>upstream.close()\<close>.\<close>

definition onClientClose :: "pool \<times> psession \<Rightarrow> pool \<times> psession" where
  "onClientClose gs =
     (case cleanup gs of (g, s) \<Rightarrow>
       (g, s\<lparr>upstream_calls := upstream_calls s @ [UClose],
             upstream_state := map_option closing (upstream_state s)\<rparr>))"

text \<open>\<open>upstream.on('open', ...)\<close>\<close>

definition pon_upstream_open :: "psession \<Rightarrow> psession" where
  "pon_upstream_open s = s\<lparr>upstreamReady := True, keepAlive := True\<rparr>"

text \<open>The timer callback set by the open handler.\<close>

definition pon_keepalive :: "psession \<Rightarrow> psession" where
  "pon_keepalive s =
     (if upstream_state s = Some OPEN then s\<lparr>upstream_calls := upstream_calls s @ [UPing]\<rparr>
      else s)"

text \<open>
  \<open>upstream.on('close', ...)\<close>: \<open>upstreamReady = false\<close>, \<open>cleanup()\<close>, then
  \<open>clientSocket.close()\<close> without code or reason.
\<close>

definition pon_upstream_close :: "int \<Rightarrow> js_string \<Rightarrow> pool \<times> psession \<Rightarrow> pool \<times> psession" where
  "pon_upstream_close code reasonBuf gs =
     (case gs of (g, s) \<Rightarrow>
       (case cleanup (g, s\<lparr>upstreamReady := False\<rparr>) of (g', s') \<Rightarrow>
         (g', s'\<lparr>client_calls := client_calls s' @ [ClosePlain],
                 client_state := closing (client_state s')\<rparr>)))"

text \<open>\<open>upstream.on('error', ...)\<close>\<close>

definition pon_upstream_error :: "psession \<Rightarrow> psession" where
  "pon_upstream_error s = s\<lparr>upstreamReady := False\<rparr>"

text \<open>
  One event. A client event reaches its handler only while the client listeners are
  attached; the upstream listeners, once attached, stay.
\<close>

fun pstep :: "event \<Rightarrow> pool \<times> psession \<Rightarrow> pool \<times> psession" where
  "pstep (TokenResolved tok) (g, s) =
     (if stage s = AwaitingToken then pafter_token tok (g, s) else (g, s))"
| "pstep JitterElapsed (g, s) =
     (if stage s = AwaitingJitter then pafter_jitter (g, s) else (g, s))"
| "pstep KeepAliveTick (g, s) = (if keepAlive s then (g, pon_keepalive s) else (g, s))"
| "pstep (ClientMessage msg) (g, s) =
     (if client_listeners s then (g, onClientMessage msg s) else (g, s))"
| "pstep ClientClose (g, s) =
     (if client_listeners s then onClientClose (g, s\<lparr>client_state := CLOSED\<rparr>)
      else (g, s\<lparr>client_state := CLOSED\<rparr>))"
| "pstep ClientError (g, s) = (g, s)"
| "pstep UpstreamOpen (g, s) =
     (if upstream_state s = Some CONNECTING
      then (g, pon_upstream_open (s\<lparr>upstream_state := Some OPEN\<rparr>)) else (g, s))"
| "pstep (UpstreamMessage msg) (g, s) =
     (if upstream_state s = Some OPEN \<or> upstream_state s = Some CLOSING
      then (g, onUpstreamMessage msg s) else (g, s))"
| "pstep (UpstreamClose code reasonBuf) (g, s) =
     (if upstream_state s = None \<or> upstream_state s = Some CLOSED then (g, s)
      else pon_upstream_close code reasonBuf (g, s\<lparr>upstream_state := Some CLOSED\<rparr>))"
| "pstep UpstreamError (g, s) =
     (if upstream_state s = None \<or> upstream_state s = Some CLOSED then (g, s)
      else (g, pon_upstream_error (s\<lparr>upstream_state := Some CLOSING\<rparr>)))"

fun prun :: "event list \<Rightarrow> pool \<times> psession \<Rightarrow> pool \<times> psession" where
  "prun [] gs = gs"
| "prun (e # es) gs = prun es (pstep e gs)"

text \<open>A connection that was admitted, followed by a list of events.\<close>

definition psession_after ::
  "pool \<times> psession admission \<Rightarrow> event list \<Rightarrow> (pool \<times> psession) option" where
  "psession_after adm es =
     (case adm of (g, Accepted s) \<Rightarrow> Some (prun es (g, s)) | (g, Rejected calls) \<Rightarrow> None)"


section \<open>The per-proxy throttle of the pooled \<open>generateToken\<close>\<close>

definition TOKEN_RATE_WINDOW_MS :: int where
  "TOKEN_RATE_WINDOW_MS = 400"

text \<open>\<open>proxyState[proxyIdx].lastTokenAt = Date.now()\<close>\<close>

definition stamp :: "int \<Rightarrow> int \<Rightarrow> pool \<Rightarrow> pool" where
  "stamp now i g =
     g\<lparr>proxyState := (proxyState g)[nat i := (proxyState g ! nat i)\<lparr>lastTokenAt := now\<rparr>]\<rparr>"

text \<open>
  \<open>generateToken\<close> runs without interruption up to \<open>await sleep(until)\<close>; when no wait
  is due it runs on, stamps the proxy and issues the fetch. \<open>now\<close> is \<open>Date.now()\<close>
  when the function is entered.
\<close>

datatype throttle = Proceed | Sleep int

definition throttle_enter :: "int \<Rightarrow> int \<Rightarrow> pool \<Rightarrow> throttle \<times> pool" where
  "throttle_enter now i g =
     (if 0 \<le> i \<and> nat i < length (proxyState g) then
        (let until = lastTokenAt (proxyState g ! nat i) + TOKEN_RATE_WINDOW_MS - now in
         if until > 0 then (Sleep until, g) else (Proceed, stamp now i g))
      else (Proceed, g))"

text \<open>
  The continuation after the sleep: the proxy is stamped with \<open>Date.now()\<close> of the
  resumption, and the fetch is issued.
\<close>

definition throttle_resume :: "int \<Rightarrow> int \<Rightarrow> pool \<Rightarrow> pool" where
  "throttle_resume now i g = stamp now i g"

text \<open>
  Several connections on the one event loop. A call enters \<open>generateToken\<close> at a time
  of the clock; a sleeping call is woken at a time not before its timer is due. The
  schedule records who sleeps (caller, proxy, due time) and every fetch issued
  (caller, proxy, time). A schedule that moves the clock backwards, or wakes a caller
  that is not asleep or not yet due, is not a run of the program: \<open>None\<close>.
\<close>

datatype call_event = Enter nat int int | Wake nat int

record sched =
  shared :: pool
  asleep :: "(nat \<times> int \<times> int) list"
  fetches :: "(nat \<times> int \<times> int) list"
  clock :: int

fun sched_step :: "call_event \<Rightarrow> sched \<Rightarrow> sched option" where
  "sched_step (Enter c i t) z =
     (if t < clock z then None
      else (case throttle_enter t i (shared z) of
              (Proceed, g) \<Rightarrow>
                Some (z\<lparr>shared := g, fetches := fetches z @ [(c, i, t)], clock := t\<rparr>)
            | (Sleep until, g) \<Rightarrow>
                Some (z\<lparr>shared := g, asleep := asleep z @ [(c, i, t + until)], clock := t\<rparr>)))"
| "sched_step (Wake c t) z =
     (if t < clock z then None
      else (case List.find (\<lambda>e. fst e = c) (asleep z) of
              None \<Rightarrow> None
            | Some (c', i, due) \<Rightarrow>
                if t < due then None
                else Some (z\<lparr>shared := throttle_resume t i (shared z),
                            asleep := filter (\<lambda>e. fst e \<noteq> c) (asleep z),
                            fetches := fetches z @ [(c, i, t)],
                            clock := t\<rparr>)))"

fun sched_run :: "call_event list \<Rightarrow> sched \<Rightarrow> sched option" where
  "sched_run [] z = Some z"
| "sched_run (e # es) z = (case sched_step e z of None \<Rightarrow> None | Some z' \<Rightarrow> sched_run es z')"


section \<open>Sample values\<close>

text \<open>
  A token, a server without proxies, and the pool as \<open>loadProxies\<close> leaves it for one
  configured proxy; they are used by the closed examples.
\<close>

abbreviation tok0 :: token where
  "tok0 \<equiv> Alt \<lparr>algorithm = ''SHA-256'', pl_challenge = ''c'', pl_salt = ''s'', number = 1,
               pl_signature = None, took = ''cloud''\<rparr>"

abbreviation no_proxies :: rotation where
  "no_proxies \<equiv> \<lparr>proxyList = [], proxyIndex = 0\<rparr>"

abbreviation one_proxy :: pool where
  "one_proxy \<equiv> \<lparr>proxyUrls = [''http://p:1''],
                 proxyState = [\<lparr>active = 0, lastTokenAt = 0\<rparr>], rrCursor = 0\<rparr>"


section \<open>Traces\<close>




section \<open>Properties of the challenge solver\<close>

text \<open>
  The loop finds the least matching number from its start, hashing every candidate up to
  it; when nothing matches it hashes every candidate up to the bound, if the bound is
  below \<open>2^53\<close>, and otherwise never ends.
\<close>

lemma js_succ_below: "x < two53 \<Longrightarrow> js_succ x = x + 1"
  by (simp add: js_succ_def)

lemma js_succ_fixed: "js_succ x = x \<longleftrightarrow> two53 \<le> x"
  by (simp add: js_succ_def)

lemma brute_force_found:
  "i \<le> k \<Longrightarrow> int k \<le> M \<Longrightarrow> k \<le> two53 \<Longrightarrow> H (s @ decimal k) = c \<Longrightarrow>
   (\<forall>j. i \<le> j \<and> j < k \<longrightarrow> H (s @ decimal j) \<noteq> c) \<Longrightarrow>
   brute_force H c s M i = (Found k, map (\<lambda>j. s @ decimal j) [i..<Suc k])"
proof (induction H c s M i rule: brute_force.induct)
  case (1 H c s M i)
  show ?case
  proof (cases "i = k")
    case True
    with "1.prems" show ?thesis
      by (simp add: brute_force.simps [of H c s M k])
  next
    case False
    with "1.prems" have lt: "i < k" and le: "int i \<le> M" and ne: "H (s @ decimal i) \<noteq> c"
      by auto
    from lt "1.prems"(3) have succ: "js_succ i = i + 1" and moves: "js_succ i \<noteq> i"
      by (simp_all add: js_succ_def)
    have rest: "brute_force H c s M (i + 1) = (Found k, map (\<lambda>j. s @ decimal j) [i + 1..<Suc k])"
      using "1.IH" [OF le ne moves] lt "1.prems" succ by simp
    have "[i..<Suc k] = i # [i + 1..<Suc k]"
      using lt by (simp add: upt_conv_Cons)
    with rest le ne succ show ?thesis
      by (simp add: brute_force.simps [of H c s M i])
  qed
qed

lemma brute_force_none:
  "M < int two53 \<Longrightarrow> (\<forall>j. i \<le> j \<and> int j \<le> M \<longrightarrow> H (s @ decimal j) \<noteq> c) \<Longrightarrow>
   brute_force H c s M i = (NotFound, map (\<lambda>j. s @ decimal j) [i..<nat (M + 1)])"
proof (induction H c s M i rule: brute_force.induct)
  case (1 H c s M i)
  show ?case
  proof (cases "int i \<le> M")
    case False
    then show ?thesis
      by (simp add: brute_force.simps [of H c s M i])
  next
    case True
    with "1.prems" have ne: "H (s @ decimal i) \<noteq> c" by simp
    from True "1.prems"(1) have succ: "js_succ i = i + 1" and moves: "js_succ i \<noteq> i"
      by (simp_all add: js_succ_def)
    have rest: "brute_force H c s M (i + 1) = (NotFound, map (\<lambda>j. s @ decimal j) [i + 1..<nat (M + 1)])"
      using "1.IH" [OF True ne moves] "1.prems" succ by simp
    have "[i..<nat (M + 1)] = i # [i + 1..<nat (M + 1)]"
      using True by (simp add: upt_conv_Cons)
    with rest True ne succ show ?thesis
      by (simp add: brute_force.simps [of H c s M i])
  qed
qed

lemma brute_force_Found:
  "brute_force H c s M i = (Found k, hs) \<Longrightarrow>
   i \<le> k \<and> int k \<le> M \<and> H (s @ decimal k) = c \<and> (\<forall>j. i \<le> j \<and> j < k \<longrightarrow> H (s @ decimal j) \<noteq> c)
   \<and> hs = map (\<lambda>j. s @ decimal j) [i..<Suc k]"
proof (induction H c s M i arbitrary: hs rule: brute_force.induct)
  case (1 H c s M i)
  from "1.prems" have le: "int i \<le> M"
    by (simp add: brute_force.simps [of H c s M i] split: if_splits)
  show ?case
  proof (cases "H (s @ decimal i) = c")
    case True
    with le "1.prems" show ?thesis
      by (auto simp add: brute_force.simps [of H c s M i])
  next
    case False
    with le "1.prems" have moves: "js_succ i \<noteq> i"
      by (auto simp add: brute_force.simps [of H c s M i] split: if_splits)
    then have succ: "js_succ i = i + 1"
      by (simp add: js_succ_def split: if_splits)
    from False le moves "1.prems" obtain hs' where
      rec: "brute_force H c s M (js_succ i) = (Found k, hs')" and hs: "hs = (s @ decimal i) # hs'"
      by (auto simp add: brute_force.simps [of H c s M i] split: prod.splits)
    from "1.IH" [OF le False moves rec] succ have
      ih: "i + 1 \<le> k" "int k \<le> M" "H (s @ decimal k) = c"
          "\<forall>j. i + 1 \<le> j \<and> j < k \<longrightarrow> H (s @ decimal j) \<noteq> c"
          "hs' = map (\<lambda>j. s @ decimal j) [i + 1..<Suc k]"
      by auto
    have "\<forall>j. i \<le> j \<and> j < k \<longrightarrow> H (s @ decimal j) \<noteq> c"
    proof (intro allI impI)
      fix j assume "i \<le> j \<and> j < k"
      then show "H (s @ decimal j) \<noteq> c"
        using False ih(4) by (cases "j = i") auto
    qed
    moreover have "[i..<Suc k] = i # [i + 1..<Suc k]"
      using ih(1) by (simp add: upt_conv_Cons)
    ultimately show ?thesis using ih hs by simp
  qed
qed

lemma brute_force_forever:
  "i \<le> two53 \<Longrightarrow> int two53 \<le> M \<Longrightarrow>
   (\<forall>j. i \<le> j \<and> j \<le> two53 \<longrightarrow> H (s @ decimal j) \<noteq> c) \<Longrightarrow>
   fst (brute_force H c s M i) = Forever"
proof (induction H c s M i rule: brute_force.induct)
  case (1 H c s M i)
  from "1.prems" have le: "int i \<le> M" and ne: "H (s @ decimal i) \<noteq> c"
    by auto
  show ?case
  proof (cases "js_succ i = i")
    case True
    with le ne show ?thesis
      by (simp add: brute_force.simps [of H c s M i])
  next
    case False
    then have lt: "i < two53" and succ: "js_succ i = i + 1"
      by (simp_all add: js_succ_def split: if_splits)
    have "fst (brute_force H c s M (js_succ i)) = Forever"
      using "1.IH" [OF le ne False] "1.prems" lt succ by simp
    with le ne False show ?thesis
      by (simp add: brute_force.simps [of H c s M i] split_beta)
  qed
qed

lemma solve_challenge_found:
  assumes "challenge r = Some c" and "salt r = Some s" and "maxnumber r = Some M"
    and "c \<noteq> []" and "s \<noteq> []" and "M < int two53"
    and "int k \<le> M" and "H (s @ decimal k) = c" and "\<forall>j<k. H (s @ decimal j) \<noteq> c"
  shows "\<exists>p. fst (solve_challenge label H r) = Inr (Alt p) \<and> number p = k"
proof -
  have "brute_force H c s M 0 = (Found k, map (\<lambda>j. s @ decimal j) [0..<Suc k])"
    using assms(6-9) by (intro brute_force_found) auto
  with assms(1-5) show ?thesis
    by (simp add: solve_challenge_def)
qed

lemma solve_challenge_unsolved:
  assumes "challenge r = Some c" and "salt r = Some s" and "maxnumber r = Some M"
    and "c \<noteq> []" and "s \<noteq> []" and "M < int two53"
    and "\<forall>k. int k \<le> M \<longrightarrow> H (s @ decimal k) \<noteq> c"
  shows "fst (solve_challenge label H r) = Inl FailedToSolve"
proof -
  have "brute_force H c s M 0 = (NotFound, map (\<lambda>j. s @ decimal j) [0..<nat (M + 1)])"
    using assms(6,7) by (intro brute_force_none) auto
  with assms(1-5) show ?thesis
    by (simp add: solve_challenge_def)
qed

lemma solve_challenge_token:
  assumes "challenge r = Some c" and "salt r = Some s" and "maxnumber r = Some M"
    and "fst (solve_challenge label H r) = Inr (Alt p)"
  shows "int (number p) \<le> M \<and> H (s @ decimal (number p)) = c \<and>
         (\<forall>j<number p. H (s @ decimal j) \<noteq> c)"
proof -
  obtain res hs where bf: "brute_force H c s M 0 = (res, hs)"
    by (cases "brute_force H c s M 0")
  with assms have "res = Found (number p)"
    by (auto simp add: solve_challenge_def split: if_splits search.splits)
  with bf brute_force_Found [of H c s M 0 "number p" hs] show ?thesis
    by simp
qed

text \<open>
  Claim C5, as amended. For a fetched challenge whose challenge and salt are not empty
  and whose bound \<open>M\<close> is below \<open>2^53\<close>: if \<open>k\<close> is the least number in \<open>[0, M]\<close> whose
  hash of \<open>salt + k\<close> equals the challenge, both servers return a token whose \<open>number\<close>
  field is \<open>k\<close>; if no number in \<open>[0, M]\<close> matches, both fail; and whatever token is
  returned carries a number that is at most \<open>M\<close>, matches, and has no smaller match.
\<close>

theorem generateToken_least_solution:
  assumes "challenge r = Some c" and "salt r = Some s" and "maxnumber r = Some M"
    and "c \<noteq> []" and "s \<noteq> []" and "M < int two53"
  shows
    "(\<forall>k. int k \<le> M \<and> H (s @ decimal k) = c \<and> (\<forall>j<k. H (s @ decimal j) \<noteq> c) \<longrightarrow>
        (\<exists>p. fst (generateToken_index H (Body (Some r))) = Inr (Alt p) \<and> number p = k) \<and>
        (\<exists>p. fst (generateToken_pooled H (Response True (Some r))) = Inr (Alt p) \<and> number p = k))
   \<and> ((\<forall>k. int k \<le> M \<longrightarrow> H (s @ decimal k) \<noteq> c) \<longrightarrow>
        fst (generateToken_index H (Body (Some r))) = Inl FailedToSolve \<and>
        fst (generateToken_pooled H (Response True (Some r))) = Inl FailedToSolve)
   \<and> (\<forall>p. fst (generateToken_index H (Body (Some r))) = Inr (Alt p) \<or>
            fst (generateToken_pooled H (Response True (Some r))) = Inr (Alt p) \<longrightarrow>
        int (number p) \<le> M \<and> H (s @ decimal (number p)) = c \<and>
        (\<forall>j<number p. H (s @ decimal j) \<noteq> c))"
proof (intro conjI allI impI)
  fix k
  assume k: "int k \<le> M \<and> H (s @ decimal k) = c \<and> (\<forall>j<k. H (s @ decimal j) \<noteq> c)"
  show "\<exists>p. fst (generateToken_index H (Body (Some r))) = Inr (Alt p) \<and> number p = k"
    using solve_challenge_found [OF assms, of k H] k
    by (simp add: generateToken_index_def)
  show "\<exists>p. fst (generateToken_pooled H (Response True (Some r))) = Inr (Alt p) \<and> number p = k"
    using solve_challenge_found [OF assms, of k H] k
    by (simp add: generateToken_pooled_def)
next
  assume none: "\<forall>k. int k \<le> M \<longrightarrow> H (s @ decimal k) \<noteq> c"
  show "fst (generateToken_index H (Body (Some r))) = Inl FailedToSolve"
    using solve_challenge_unsolved [OF assms none] by (simp add: generateToken_index_def)
  show "fst (generateToken_pooled H (Response True (Some r))) = Inl FailedToSolve"
    using solve_challenge_unsolved [OF assms none] by (simp add: generateToken_pooled_def)
next
  fix p
  assume "fst (generateToken_index H (Body (Some r))) = Inr (Alt p) \<or>
          fst (generateToken_pooled H (Response True (Some r))) = Inr (Alt p)"
  then have "fst (solve_challenge ''cloud-proxy'' H r) = Inr (Alt p) \<or>
             fst (solve_challenge ''cloud'' H r) = Inr (Alt p)"
    by (simp add: generateToken_index_def generateToken_pooled_def)
  then have "int (number p) \<le> M \<and> H (s @ decimal (number p)) = c \<and>
        (\<forall>j<number p. H (s @ decimal j) \<noteq> c)"
    using solve_challenge_token [OF assms(1-3)] by blast
  then show "int (number p) \<le> M" and "H (s @ decimal (number p)) = c"
    and "\<And>j. j < number p \<Longrightarrow> H (s @ decimal j) \<noteq> c" by auto
qed

theorem generateToken_least_solution_witness:
  "(\<exists>p. fst (generateToken_index (\<lambda>x. x)
            (Body (Some \<lparr>challenge = Some ''ab2'', salt = Some ''ab'',
                         maxnumber = Some 5, signature = None\<rparr>))) = Inr (Alt p)
        \<and> number p = 2)
   \<and> fst (generateToken_pooled (\<lambda>x. x)
            (Response True (Some \<lparr>challenge = Some ''zz'', salt = Some ''ab'',
                         maxnumber = Some 1, signature = None\<rparr>))) = Inl FailedToSolve"
proof -
  let ?r = "\<lparr>challenge = Some ''ab2'', salt = Some ''ab'', maxnumber = Some 5, signature = None\<rparr>"
  let ?q = "\<lparr>challenge = Some ''zz'', salt = Some ''ab'', maxnumber = Some 1, signature = None\<rparr>"
  have d0: "decimal 0 = ''0''" by (simp add: decimal.simps [of 0])
  have d1: "decimal (Suc 0) = ''1''" by (simp add: decimal.simps [of "Suc 0"])
  have d2: "decimal 2 = ''2''" by (simp add: decimal.simps [of 2])
  have lt: "\<forall>j<2::nat. (\<lambda>x. x) (''ab'' @ decimal j) \<noteq> ''ab2''"
  proof (intro allI impI)
    fix j :: nat assume "j < 2"
    then have "j = 0 \<or> j = Suc 0" by auto
    then show "(\<lambda>x. x) (''ab'' @ decimal j) \<noteq> ''ab2''" using d0 d1 by auto
  qed
  have k: "int 2 \<le> 5 \<and> (\<lambda>x. x) (''ab'' @ decimal 2) = ''ab2'' \<and>
           (\<forall>j<2. (\<lambda>x. x) (''ab'' @ decimal j) \<noteq> ''ab2'')"
    using d2 lt by simp
  have none: "\<forall>k. int k \<le> 1 \<longrightarrow> (\<lambda>x. x) (''ab'' @ decimal k) \<noteq> ''zz''"
    by simp
  have r: "challenge ?r = Some ''ab2''" "salt ?r = Some ''ab''" "maxnumber ?r = Some 5"
    "''ab2'' \<noteq> []" "''ab'' \<noteq> []" "5 < int two53"
    by (simp_all add: two53_def)
  have q: "challenge ?q = Some ''zz''" "salt ?q = Some ''ab''" "maxnumber ?q = Some 1"
    "''zz'' \<noteq> []" "''ab'' \<noteq> []" "1 < int two53"
    by (simp_all add: two53_def)
  note R = generateToken_least_solution [OF r, of "\<lambda>x. x"]
  note Q = generateToken_least_solution [OF q, of "\<lambda>x. x"]
  have a: "\<exists>p. fst (generateToken_index (\<lambda>x. x) (Body (Some ?r))) = Inr (Alt p) \<and> number p = 2"
    using R [THEN conjunct1, THEN spec, of 2] k by blast
  have b: "fst (generateToken_pooled (\<lambda>x. x) (Response True (Some ?q))) = Inl FailedToSolve"
    using Q [THEN conjunct2, THEN conjunct1] none by blast
  show ?thesis using a b by blast
qed

text \<open>
  Two challenges outside the amended claim. With an empty salt and the challenge
  \<open>''3''\<close> under the identity in place of the hash, 3 is the least match below the
  bound 5, yet both servers end in the invalid-challenge branch. With the bound \<open>2^53\<close>
  and a hash that never matches, the counter reaches \<open>2^53\<close>, stays there, and the call
  never returns: it does not fail.
\<close>

theorem empty_salt_and_large_bound:
  "fst (generateToken_index id
         (Body (Some \<lparr>challenge = Some ''3'', salt = Some [],
                      maxnumber = Some 5, signature = None\<rparr>))) = Inl InvalidChallenge
   \<and> fst (generateToken_pooled id
         (Response True (Some \<lparr>challenge = Some ''3'', salt = Some [],
                      maxnumber = Some 5, signature = None\<rparr>))) = Inl InvalidChallenge
   \<and> id ([] @ decimal 3) = ''3'' \<and> id ([] @ decimal 0) \<noteq> ''3''
   \<and> id ([] @ decimal 1) \<noteq> ''3'' \<and> id ([] @ decimal 2) \<noteq> ''3''
   \<and> fst (generateToken_index (\<lambda>x. ''z'')
         (Body (Some \<lparr>challenge = Some ''c'', salt = Some ''s'',
                      maxnumber = Some (2 ^ 53), signature = None\<rparr>))) = Inl NeverReturns
   \<and> fst (generateToken_pooled (\<lambda>x. ''z'')
         (Response True (Some \<lparr>challenge = Some ''c'', salt = Some ''s'',
                      maxnumber = Some (2 ^ 53), signature = None\<rparr>))) = Inl NeverReturns"
proof -
  have empty: "solve_challenge label id \<lparr>challenge = Some ''3'', salt = Some [],
      maxnumber = Some 5, signature = None\<rparr> = (Inl InvalidChallenge, [])" for label
    by (simp add: solve_challenge_def)
  have d: "decimal 3 = ''3''" "decimal 0 = ''0''" "decimal (Suc 0) = ''1''" "decimal 2 = ''2''"
    by (simp_all add: decimal.simps [of 3] decimal.simps [of 0] decimal.simps [of "Suc 0"]
        decimal.simps [of 2])
  have "fst (brute_force (\<lambda>x. ''z'') ''c'' ''s'' (int two53) 0) = Forever"
    by (rule brute_force_forever) simp_all
  then have "fst (brute_force (\<lambda>x. ''z'') ''c'' ''s'' (2 ^ 53) 0) = Forever"
    by (simp add: two53_def)
  then have large: "fst (solve_challenge label (\<lambda>x. ''z'') \<lparr>challenge = Some ''c'',
      salt = Some ''s'', maxnumber = Some (2 ^ 53), signature = None\<rparr>) = Inl NeverReturns"
    for label
    by (cases "brute_force (\<lambda>x. ''z'') ''c'' ''s'' (2 ^ 53) 0")
       (simp add: solve_challenge_def)
  show ?thesis
    using empty large d by (simp add: generateToken_index_def generateToken_pooled_def)
qed

text \<open>
  Claim C6. If the challenge, the salt or the bound is missing from the parsed response,
  token generation ends in the invalid-challenge branch and nothing has been hashed.
\<close>
theorem missing_field_no_hash:
  "challenge r = None \<or> salt r = None \<or> maxnumber r = None \<Longrightarrow>
   generateToken_index H (Body (Some r)) = (Inl InvalidChallenge, []) \<and>
   generateToken_pooled H (Response True (Some r)) = (Inl InvalidChallenge, []) \<and>
   resolved (generateToken_index H (Body (Some r))) = None \<and>
   resolved (generateToken_pooled H (Response True (Some r))) = None"
  by (auto simp add: generateToken_index_def generateToken_pooled_def solve_challenge_def
      resolved_def split: option.splits)

theorem missing_field_no_hash_witness:
  "generateToken_index (\<lambda>x. x) (Body (Some \<lparr>challenge = Some ''ab2'', salt = None,
       maxnumber = Some 5, signature = None\<rparr>)) = (Inl InvalidChallenge, []) \<and>
   generateToken_pooled (\<lambda>x. x) (Response True (Some \<lparr>challenge = Some ''ab2'', salt = None,
       maxnumber = Some 5, signature = None\<rparr>)) = (Inl InvalidChallenge, [])"
  using missing_field_no_hash [of "\<lparr>challenge = Some ''ab2'', salt = None,
       maxnumber = Some 5, signature = None\<rparr>" "\<lambda>x. x"]
  by simp




section \<open>Properties of proxy selection\<close>

lemma getNextProxy_times_eq:
  "proxyList g \<noteq> [] \<Longrightarrow> proxyIndex g + k \<le> two53 \<Longrightarrow>
   getNextProxy_times k g =
     (map (\<lambda>j. Some (proxyList g ! ((proxyIndex g + j) mod length (proxyList g)))) [0..<k],
      g\<lparr>proxyIndex := proxyIndex g + k\<rparr>)"
proof (induction k arbitrary: g)
  case 0
  then show ?case by simp
next
  case (Suc k)
  let ?g' = "g\<lparr>proxyIndex := Suc (proxyIndex g)\<rparr>"
  have succ: "js_succ (proxyIndex g) = Suc (proxyIndex g)"
    using Suc.prems(2) by (simp add: js_succ_def)
  have step: "getNextProxy g =
      (Some (proxyList g ! (proxyIndex g mod length (proxyList g))), ?g')"
    using Suc.prems(1) succ by (simp add: getNextProxy_def)
  have ne: "proxyList ?g' \<noteq> []" and bound: "proxyIndex ?g' + k \<le> two53"
    using Suc.prems by simp_all
  have up: "[0..<Suc k] = 0 # map Suc [0..<k]"
    by (simp add: upt_conv_Cons map_Suc_upt del: upt_Suc)
  have ih: "getNextProxy_times k ?g' =
      (map (\<lambda>j. Some (proxyList g ! ((proxyIndex g + Suc j) mod length (proxyList g)))) [0..<k],
       g\<lparr>proxyIndex := proxyIndex g + Suc k\<rparr>)"
    using Suc.IH [OF ne bound] by simp
  show ?case
    by (simp add: step ih up comp_def del: upt_Suc)
qed

lemma getNextProxy_times_stalled:
  "proxyList g \<noteq> [] \<Longrightarrow> two53 \<le> proxyIndex g \<Longrightarrow>
   getNextProxy_times k g =
     (replicate k (Some (proxyList g ! (proxyIndex g mod length (proxyList g)))), g)"
proof (induction k)
  case 0
  then show ?case by simp
next
  case (Suc k)
  have "getNextProxy g = (Some (proxyList g ! (proxyIndex g mod length (proxyList g))), g)"
    using Suc.prems by (simp add: getNextProxy_def js_succ_def)
  with Suc.IH [OF Suc.prems] show ?case by simp
qed

lemma pickProxyIndex_times_eq:
  "proxyUrls g \<noteq> [] \<Longrightarrow>
   fst (pickProxyIndex_times k g) =
     map (\<lambda>j. int ((rrCursor g + j) mod length (proxyUrls g))) [0..<k] \<and>
   rrCursor (snd (pickProxyIndex_times k g)) mod length (proxyUrls g) =
     (rrCursor g + k) mod length (proxyUrls g) \<and>
   proxyUrls (snd (pickProxyIndex_times k g)) = proxyUrls g"
proof (induction k arbitrary: g)
  case 0
  then show ?case by simp
next
  case (Suc k)
  let ?n = "length (proxyUrls g)"
  let ?g' = "g\<lparr>rrCursor := (rrCursor g + 1) mod ?n\<rparr>"
  have step: "pickProxyIndex g = (int (rrCursor g mod ?n), ?g')"
    using Suc.prems by (simp add: pickProxyIndex_def Let_def)
  have ne: "proxyUrls ?g' \<noteq> []" using Suc.prems by simp
  have up: "[0..<Suc k] = 0 # map Suc [0..<k]"
    by (simp add: upt_conv_Cons map_Suc_upt del: upt_Suc)
  have m: "\<And>j. (Suc (rrCursor g) mod ?n + j) mod ?n = Suc (rrCursor g + j) mod ?n"
    by (simp add: mod_add_left_eq)
  from Suc.IH [OF ne] show ?case
    by (simp add: step up comp_def split_beta m del: upt_Suc)
qed

lemma map_nth_rotate:
  "xs \<noteq> [] \<Longrightarrow> map (\<lambda>j. xs ! ((c + j) mod length xs)) [0..<length xs] = rotate c xs"
  by (rule nth_equalityI) (simp_all add: nth_rotate)

lemma mset_rotate_eq: "mset (rotate c xs) = mset xs"
proof -
  let ?k = "c mod length xs"
  have "mset (rotate c xs) = mset (drop ?k xs) + mset (take ?k xs)"
    by (simp add: rotate_drop_take)
  also have "\<dots> = mset (take ?k xs @ drop ?k xs)"
    by (simp only: mset_append add.commute)
  also have "\<dots> = mset xs"
    by (simp only: append_take_drop_id)
  finally show ?thesis .
qed

lemma getNextProxy_window:
  assumes "xs \<noteq> []" and "m + length xs \<le> two53"
  shows "fst (getNextProxy_times (length xs)
                (snd (getNextProxy_times m \<lparr>proxyList = xs, proxyIndex = 0\<rparr>))) =
         map Some (rotate m xs)"
proof -
  let ?g0 = "\<lparr>proxyList = xs, proxyIndex = 0\<rparr>"
  let ?g1 = "\<lparr>proxyList = xs, proxyIndex = m\<rparr>"
  have "getNextProxy_times m ?g0 =
      (map (\<lambda>j. Some (xs ! ((0 + j) mod length xs))) [0..<m], ?g1)"
    using getNextProxy_times_eq [of ?g0 m] assms by simp
  then have g1: "snd (getNextProxy_times m ?g0) = ?g1"
    by simp
  have "fst (getNextProxy_times (length xs) ?g1) =
        map (\<lambda>j. Some (xs ! ((m + j) mod length xs))) [0..<length xs]"
    using getNextProxy_times_eq [of ?g1 "length xs"] assms by simp
  also have "\<dots> = map Some (map (\<lambda>j. xs ! ((m + j) mod length xs)) [0..<length xs])"
    by (simp add: comp_def)
  also have "\<dots> = map Some (rotate m xs)"
    using assms(1) by (simp add: map_nth_rotate)
  finally show ?thesis
    using g1 by simp
qed

lemma pickProxyIndex_round:
  assumes "proxyUrls g \<noteq> []"
  shows "fst (pickProxyIndex_times (length (proxyUrls g)) g) =
           map int (rotate (rrCursor g) [0..<length (proxyUrls g)])"
proof -
  let ?n = "length (proxyUrls g)"
  have "map (\<lambda>j. [0..<?n] ! ((rrCursor g + j) mod length [0..<?n])) [0..<length [0..<?n]] =
        rotate (rrCursor g) [0..<?n]"
    using assms by (intro map_nth_rotate) simp
  then have "map (\<lambda>j. (rrCursor g + j) mod ?n) [0..<?n] = rotate (rrCursor g) [0..<?n]"
    using assms by simp
  then have "map int (map (\<lambda>j. (rrCursor g + j) mod ?n) [0..<?n]) =
             map int (rotate (rrCursor g) [0..<?n])"
    by simp
  then show ?thesis
    using pickProxyIndex_times_eq [OF assms, of ?n] by (simp add: comp_def)
qed

lemma proxy_at_rotate:
  assumes "proxyUrls g \<noteq> []"
  shows "map (proxy_at g) (map int (rotate c [0..<length (proxyUrls g)])) =
         map Some (rotate c (proxyUrls g))"
proof -
  let ?n = "length (proxyUrls g)"
  have "map (proxy_at g) (map int (rotate c [0..<?n])) =
        map Some (map (\<lambda>i. proxyUrls g ! i) (rotate c [0..<?n]))"
    by (simp add: proxy_at_def comp_def)
  also have "map (\<lambda>i. proxyUrls g ! i) (rotate c [0..<?n]) =
             rotate c (map (\<lambda>i. proxyUrls g ! i) [0..<?n])"
    by (simp add: rotate_map)
  also have "map (\<lambda>i. proxyUrls g ! i) [0..<?n] = proxyUrls g"
    by (simp add: map_nth)
  finally show ?thesis .
qed

lemma pickProxyIndex_window:
  assumes "xs \<noteq> []"
  shows "fst (pickProxyIndex_times (length xs)
                (snd (pickProxyIndex_times m \<lparr>proxyUrls = xs, proxyState = ps, rrCursor = 0\<rparr>))) =
         map int (rotate m [0..<length xs])"
proof -
  let ?q0 = "\<lparr>proxyUrls = xs, proxyState = ps, rrCursor = 0\<rparr>"
  let ?q1 = "snd (pickProxyIndex_times m ?q0)"
  have ne0: "proxyUrls ?q0 \<noteq> []" using assms by simp
  have q1: "rrCursor ?q1 mod length xs = m mod length xs" "proxyUrls ?q1 = xs"
    using pickProxyIndex_times_eq [OF ne0, of m] by simp_all
  have ne1: "proxyUrls ?q1 \<noteq> []" using assms q1 by simp
  have "fst (pickProxyIndex_times (length xs) ?q1) =
        map int (rotate (rrCursor ?q1) [0..<length xs])"
    using pickProxyIndex_round [OF ne1] q1(2) by simp
  also have "rotate (rrCursor ?q1) [0..<length xs] = rotate m [0..<length xs]"
    using q1(1) by (simp add: rotate_conv_mod [of "rrCursor ?q1"] rotate_conv_mod [of m])
  finally show ?thesis .
qed

text \<open>
  Claim C7, as amended. With \<open>N \<ge> 1\<close> configured proxies, the \<open>N\<close> selections that follow
  any \<open>m\<close> earlier ones return the list rotated by \<open>m\<close>, hence every endpoint exactly
  once, and the \<open>N\<close> selections after those return the same order again. For
  \<open>pickProxyIndex\<close> of the pooled server this holds for every \<open>m\<close>; for \<open>getNextProxy\<close>
  of \<open>index.js\<close> it holds as long as the selections lie within the first \<open>2^53\<close>. With
  no proxy configured, selection returns \<open>null\<close> (index \<open>-1\<close>) and leaves the state
  alone.
\<close>

theorem round_robin_selection:
  "(xs \<noteq> [] \<and> m + length xs \<le> two53 \<longrightarrow>
      fst (getNextProxy_times (length xs)
             (snd (getNextProxy_times m \<lparr>proxyList = xs, proxyIndex = 0\<rparr>))) =
        map Some (rotate m xs) \<and>
      mset (fst (getNextProxy_times (length xs)
             (snd (getNextProxy_times m \<lparr>proxyList = xs, proxyIndex = 0\<rparr>)))) =
        mset (map Some xs))
   \<and> (xs \<noteq> [] \<and> m + 2 * length xs \<le> two53 \<longrightarrow>
      fst (getNextProxy_times (length xs)
             (snd (getNextProxy_times (m + length xs) \<lparr>proxyList = xs, proxyIndex = 0\<rparr>))) =
        map Some (rotate m xs))
   \<and> (xs \<noteq> [] \<longrightarrow>
      fst (pickProxyIndex_times (length xs)
             (snd (pickProxyIndex_times m \<lparr>proxyUrls = xs, proxyState = ps, rrCursor = 0\<rparr>))) =
        map int (rotate m [0..<length xs]) \<and>
      mset (fst (pickProxyIndex_times (length xs)
             (snd (pickProxyIndex_times m \<lparr>proxyUrls = xs, proxyState = ps, rrCursor = 0\<rparr>)))) =
        mset (map int [0..<length xs]) \<and>
      map (proxy_at \<lparr>proxyUrls = xs, proxyState = ps, rrCursor = 0\<rparr>)
          (fst (pickProxyIndex_times (length xs)
             (snd (pickProxyIndex_times m \<lparr>proxyUrls = xs, proxyState = ps, rrCursor = 0\<rparr>)))) =
        map Some (rotate m xs) \<and>
      fst (pickProxyIndex_times (length xs)
             (snd (pickProxyIndex_times (m + length xs)
                     \<lparr>proxyUrls = xs, proxyState = ps, rrCursor = 0\<rparr>))) =
        map int (rotate m [0..<length xs]))
   \<and> getNextProxy \<lparr>proxyList = [], proxyIndex = c\<rparr> = (None, \<lparr>proxyList = [], proxyIndex = c\<rparr>)
   \<and> pickProxyIndex \<lparr>proxyUrls = [], proxyState = ps, rrCursor = c\<rparr> =
        (- 1, \<lparr>proxyUrls = [], proxyState = ps, rrCursor = c\<rparr>)
   \<and> proxy_at \<lparr>proxyUrls = [], proxyState = ps, rrCursor = c\<rparr> (- 1) = None"
proof (intro conjI impI)
  assume a: "xs \<noteq> [] \<and> m + length xs \<le> two53"
  then have ne: "xs \<noteq> []" and b1: "m + length xs \<le> two53"
    by simp_all
  show w: "fst (getNextProxy_times (length xs)
             (snd (getNextProxy_times m \<lparr>proxyList = xs, proxyIndex = 0\<rparr>))) =
        map Some (rotate m xs)"
    by (rule getNextProxy_window [OF ne b1])
  show "mset (fst (getNextProxy_times (length xs)
             (snd (getNextProxy_times m \<lparr>proxyList = xs, proxyIndex = 0\<rparr>)))) =
        mset (map Some xs)"
    unfolding w by (simp add: mset_rotate_eq)
next
  assume a: "xs \<noteq> [] \<and> m + 2 * length xs \<le> two53"
  then have ne: "xs \<noteq> []" and b2: "(m + length xs) + length xs \<le> two53"
    by simp_all
  have "rotate (m + length xs) xs = rotate m xs"
    by (simp add: rotate_conv_mod [of "m + length xs"] rotate_conv_mod [of m])
  then show "fst (getNextProxy_times (length xs)
             (snd (getNextProxy_times (m + length xs) \<lparr>proxyList = xs, proxyIndex = 0\<rparr>))) =
        map Some (rotate m xs)"
    using getNextProxy_window [OF ne b2] by simp
next
  assume ne: "xs \<noteq> []"
  let ?q0 = "\<lparr>proxyUrls = xs, proxyState = ps, rrCursor = 0\<rparr>"
  show w: "fst (pickProxyIndex_times (length xs) (snd (pickProxyIndex_times m ?q0))) =
        map int (rotate m [0..<length xs])"
    by (rule pickProxyIndex_window [OF ne])
  show "mset (fst (pickProxyIndex_times (length xs) (snd (pickProxyIndex_times m ?q0)))) =
        mset (map int [0..<length xs])"
    unfolding w by (simp add: mset_rotate_eq del: mset_upt)
  have "proxyUrls ?q0 \<noteq> []" using ne by simp
  from proxy_at_rotate [OF this, of m]
  show "map (proxy_at ?q0)
          (fst (pickProxyIndex_times (length xs) (snd (pickProxyIndex_times m ?q0)))) =
        map Some (rotate m xs)"
    unfolding w by simp
  have "rotate (m + length xs) [0..<length xs] = rotate m [0..<length xs]"
    by (simp add: rotate_conv_mod [of "m + length xs"] rotate_conv_mod [of m])
  then show "fst (pickProxyIndex_times (length xs)
             (snd (pickProxyIndex_times (m + length xs) ?q0))) =
        map int (rotate m [0..<length xs])"
    using pickProxyIndex_window [OF ne, of "m + length xs" ps] by simp
next
  show "getNextProxy \<lparr>proxyList = [], proxyIndex = c\<rparr> = (None, \<lparr>proxyList = [], proxyIndex = c\<rparr>)"
    by (simp add: getNextProxy_def)
  show "pickProxyIndex \<lparr>proxyUrls = [], proxyState = ps, rrCursor = c\<rparr> =
        (- 1, \<lparr>proxyUrls = [], proxyState = ps, rrCursor = c\<rparr>)"
    by (simp add: pickProxyIndex_def)
  show "proxy_at \<lparr>proxyUrls = [], proxyState = ps, rrCursor = c\<rparr> (- 1) = None"
    by (simp add: proxy_at_def)
qed

theorem round_robin_selection_witness:
  "fst (getNextProxy_times 3
         (snd (getNextProxy_times 4 \<lparr>proxyList = [''a'', ''b'', ''c''], proxyIndex = 0\<rparr>))) =
     [Some ''b'', Some ''c'', Some ''a'']
   \<and> fst (pickProxyIndex_times 3
         (snd (pickProxyIndex_times 5
            \<lparr>proxyUrls = [''a'', ''b'', ''c''],
             proxyState = replicate 3 \<lparr>active = 0, lastTokenAt = 0\<rparr>, rrCursor = 0\<rparr>))) =
     [2, 0, 1]"
proof -
  have h: "[''a'', ''b'', ''c''] \<noteq> [] \<and> 4 + length [''a'', ''b'', ''c''] \<le> two53"
    by (simp add: two53_def)
  have h5: "[''a'', ''b'', ''c''] \<noteq> []"
    by simp
  have len: "length [''a'', ''b'', ''c''] = 3"
    by simp
  note A = round_robin_selection [of "[''a'', ''b'', ''c'']" 4, THEN conjunct1, THEN mp, OF h,
      THEN conjunct1, unfolded len]
  note B = round_robin_selection [of "[''a'', ''b'', ''c'']" 5
      "replicate 3 \<lparr>active = 0, lastTokenAt = 0\<rparr>",
      THEN conjunct2, THEN conjunct2, THEN conjunct1, THEN mp, OF h5, THEN conjunct1,
      unfolded len]
  have r4: "map Some (rotate 4 [''a'', ''b'', ''c'']) = [Some ''b'', Some ''c'', Some ''a'']"
    by (simp add: rotate_def numeral_eq_Suc)
  have r5: "map int (rotate 5 [0..<3]) = [2, 0, 1]"
    by (simp add: rotate_def numeral_eq_Suc upt_rec)
  show ?thesis
    by (simp only: A B r4 r5)
qed

text \<open>
  After \<open>2^53\<close> selections the counter of \<open>index.js\<close> no longer moves, and the next
  three selections return the same proxy three times.
\<close>

theorem rotation_stalls:
  "fst (getNextProxy_times 3
         (snd (getNextProxy_times (2 ^ 53) \<lparr>proxyList = [''a'', ''b'', ''c''], proxyIndex = 0\<rparr>))) =
     [Some ''c'', Some ''c'', Some ''c'']"
proof -
  let ?g0 = "\<lparr>proxyList = [''a'', ''b'', ''c''], proxyIndex = 0\<rparr>"
  let ?g1 = "\<lparr>proxyList = [''a'', ''b'', ''c''], proxyIndex = two53\<rparr>"
  have reach: "snd (getNextProxy_times two53 ?g0) = ?g1"
    using getNextProxy_times_eq [of ?g0 two53] by simp
  have m: "two53 mod 3 = 2"
    unfolding two53_def by simp
  have "getNextProxy_times 3 ?g1 =
      (replicate 3 (Some ([''a'', ''b'', ''c''] ! (two53 mod length [''a'', ''b'', ''c'']))), ?g1)"
    using getNextProxy_times_stalled [of ?g1 3] by simp
  then have "fst (getNextProxy_times 3 ?g1) = replicate 3 (Some ''c'')"
    using m by simp
  then have "fst (getNextProxy_times 3 (snd (getNextProxy_times two53 ?g0))) =
      [Some ''c'', Some ''c'', Some ''c'']"
    unfolding reach by (simp add: numeral_3_eq_3)
  then show ?thesis
    unfolding two53_def .
qed

section \<open>Properties of the region check and of close propagation\<close>

lemma region_ok_iff:
  "region_ok reg \<longleftrightarrow> (\<exists>r. reg = Some r \<and> suffix ''.moomoo.io'' (map ascii_lower r))"
  by (cases reg) (auto simp add: region_ok_def matches_moomoo_def suffix_def)

text \<open>
  What the check does turn away: an absent region and a region that does not end in
  \<open>.moomoo.io\<close>. Then nothing but the close happens; \<open>index.js\<close> closes with 1008, the
  pooled server without a code.
\<close>

lemma suffix_mismatch_rejected:
  "reg = None \<or> (\<exists>r. reg = Some r \<and> \<not> suffix ''.moomoo.io'' (map ascii_lower r)) \<Longrightarrow>
   connection reg g = (g, Rejected [Close 1008 (lit ''Invalid region'')]) \<and>
   pconnection reg q = (q, Rejected [ClosePlain])"
  by (auto simp add: connection_def pconnection_def region_ok_iff)

text \<open>
  The close the pooled server sends for a rejected region is the close it sends when
  token generation fails.
\<close>

lemma pooled_rejection_not_distinguished:
  "snd (pconnection None
         \<lparr>proxyUrls = [''http://p:1''], proxyState = [\<lparr>active = 0, lastTokenAt = 0\<rparr>], rrCursor = 0\<rparr>) =
     Rejected [ClosePlain]
   \<and> (case pconnection (Some ''eu.moomoo.io'')
         \<lparr>proxyUrls = [''http://p:1''], proxyState = [\<lparr>active = 0, lastTokenAt = 0\<rparr>], rrCursor = 0\<rparr> of
        (g, Accepted s) \<Rightarrow> client_calls (snd (prun [TokenResolved None] (g, s)))
      | (g, Rejected calls) \<Rightarrow> []) = [ClosePlain]"
  by code_simp

text \<open>
  Claim C8 at the region \<open>evil.example/x.moomoo.io\<close>, which is not a hostname (it
  contains a slash) but ends in \<open>.moomoo.io\<close>: neither server rejects it. Both select a
  proxy (the counter of \<open>index.js\<close> advances, the pooled server counts the proxy as
  active), request a token, and with the token dial \<open>wss://evil.example/x.moomoo.io/\<close>,
  whose host is \<open>evil.example\<close>; the client is not closed.
\<close>

theorem region_suffix_bypass:
  "fst (connection (Some ''evil.example/x.moomoo.io'')
          \<lparr>proxyList = [''http://p:1''], proxyIndex = 0\<rparr>) =
     \<lparr>proxyList = [''http://p:1''], proxyIndex = 1\<rparr>
   \<and> map_option (\<lambda>s. (proxyUrl s, token_requests s, dialed s, upstream_state s, client_calls s))
     (session_after (connection (Some ''evil.example/x.moomoo.io'')
          \<lparr>proxyList = [''http://p:1''], proxyIndex = 0\<rparr>)
        [TokenResolved (Some tok0)]) =
     Some (Some ''http://p:1'', 1, Some (''evil.example/x.moomoo.io'', tok0), Some CONNECTING, [])
   \<and> map_option (\<lambda>gs. (map active (proxyState (fst gs)), proxyIdx (snd gs),
                        token_requests (snd gs), dialed (snd gs), upstream_state (snd gs),
                        client_calls (snd gs)))
     (psession_after (pconnection (Some ''evil.example/x.moomoo.io'') one_proxy)
        [TokenResolved (Some tok0), JitterElapsed]) =
     Some ([1], 0, 1, Some (''evil.example/x.moomoo.io'', tok0), Some CONNECTING, [])"
proof -
  have ok: "region_ok (Some ''evil.example/x.moomoo.io'')"
    by code_simp
  have succ: "js_succ 0 = 1"
    by (simp add: js_succ_def two53_def)
  have index: "connection (Some ''evil.example/x.moomoo.io'')
          \<lparr>proxyList = [''http://p:1''], proxyIndex = 0\<rparr> =
        (\<lparr>proxyList = [''http://p:1''], proxyIndex = 1\<rparr>,
         Accepted \<lparr>region = ''evil.example/x.moomoo.io'', stage = AwaitingToken,
                   token_requests = 1, dialed = None, upstreamReady = False,
                   keepAlive = False, client_state = OPEN, upstream_state = None,
                   client_calls = [], upstream_calls = [],
                   proxyUrl = Some ''http://p:1'', messageQueue = []\<rparr>)"
    using ok succ by (simp add: connection_def getNextProxy_def)
  have pooled: "map_option (\<lambda>gs. (map active (proxyState (fst gs)), proxyIdx (snd gs),
                        token_requests (snd gs), dialed (snd gs), upstream_state (snd gs),
                        client_calls (snd gs)))
     (psession_after (pconnection (Some ''evil.example/x.moomoo.io'') one_proxy)
        [TokenResolved (Some tok0), JitterElapsed]) =
     Some ([1], 0, 1, Some (''evil.example/x.moomoo.io'', tok0), Some CONNECTING, [])"
    by code_simp
  show ?thesis
    using pooled by (simp add: index session_after_def after_token_def)
qed

lemma utf8_length_ascii:
  "\<forall>u\<in>set r. u < 0x80 \<Longrightarrow> utf8_length r = length r"
  by (induction r rule: utf8_length.induct) auto

lemma sendable_safeCode: "sendable_code (safeCode c)"
  by (simp add: sendable_code_def safeCode_def)

lemma safeCode_reserved:
  "c = 1004 \<or> c = 1005 \<or> c = 1006 \<or> c = 1015 \<Longrightarrow> safeCode c = 1000"
  by (auto simp add: safeCode_def)

lemma safeCode_passes:
  "(1000 \<le> c \<and> c \<le> 1003) \<or> (1007 \<le> c \<and> c \<le> 1014) \<or> (3000 \<le> c \<and> c \<le> 4999) \<Longrightarrow>
   safeCode c = c"
  by (simp add: safeCode_def)

lemma step_upstream_close_calls:
  assumes "client_state s = OPEN" and "upstream_state s \<noteq> None" and "upstream_state s \<noteq> Some CLOSED"
  shows "client_calls (step (UpstreamClose c r) s) =
           client_calls s @
             (if 123 < utf8_length (take 123 r)
              then [Close (safeCode c) (take 123 r), Terminate]
              else [Close (safeCode c) (take 123 r)])"
  using assms by (simp add: on_upstream_close_def close_throws_def sendable_safeCode Let_def)

lemma pstep_upstream_close_calls:
  assumes "upstream_state p \<noteq> None" and "upstream_state p \<noteq> Some CLOSED"
  shows "client_calls (snd (pstep (UpstreamClose c r) (q, p))) = client_calls p @ [ClosePlain]"
  using assms by (simp add: pon_upstream_close_def cleanup_def)

text \<open>
  Claim C4, as amended. When \<open>index.js\<close> propagates an upstream close to an open client,
  it calls \<open>close\<close> with \<open>safeCode\<close> of the code and the first 123 code units of the
  reason: 1004, 1005, 1006 and 1015 become 1000; 1000-1003, 1007-1014 and 3000-4999 are
  kept; and a reason of ASCII characters only is cut to \<open>min 123\<close> of its bytes, so to
  exactly 123 bytes when it was longer. The pooled server closes the client without
  code or reason.
\<close>
theorem upstream_close_propagation:
  assumes "client_state s = OPEN" and "upstream_state s \<noteq> None" and "upstream_state s \<noteq> Some CLOSED"
    and "upstream_state p \<noteq> None" and "upstream_state p \<noteq> Some CLOSED"
  shows
    "(\<exists>rest. client_calls (step (UpstreamClose c r) s) =
               client_calls s @ Close (safeCode c) (take 123 r) # rest)
   \<and> (c = 1004 \<or> c = 1005 \<or> c = 1006 \<or> c = 1015 \<longrightarrow> safeCode c = 1000)
   \<and> ((1000 \<le> c \<and> c \<le> 1003) \<or> (1007 \<le> c \<and> c \<le> 1014) \<or> (3000 \<le> c \<and> c \<le> 4999) \<longrightarrow>
        safeCode c = c)
   \<and> ((\<forall>u\<in>set r. u < 0x80) \<longrightarrow>
        client_calls (step (UpstreamClose c r) s) =
          client_calls s @ [Close (safeCode c) (take 123 r)] \<and>
        utf8_length (take 123 r) = min 123 (utf8_length r) \<and>
        (123 < utf8_length r \<longrightarrow> utf8_length (take 123 r) = 123))
   \<and> client_calls (snd (pstep (UpstreamClose c r) (q, p))) = client_calls p @ [ClosePlain]"
proof (intro conjI impI)
  show "\<exists>rest. client_calls (step (UpstreamClose c r) s) =
               client_calls s @ Close (safeCode c) (take 123 r) # rest"
    using step_upstream_close_calls [OF assms(1-3), of c r] by simp
  show "c = 1004 \<or> c = 1005 \<or> c = 1006 \<or> c = 1015 \<Longrightarrow> safeCode c = 1000"
    by (rule safeCode_reserved)
  show "(1000 \<le> c \<and> c \<le> 1003) \<or> (1007 \<le> c \<and> c \<le> 1014) \<or> (3000 \<le> c \<and> c \<le> 4999) \<Longrightarrow>
        safeCode c = c"
    by (rule safeCode_passes)
  show "client_calls (snd (pstep (UpstreamClose c r) (q, p))) = client_calls p @ [ClosePlain]"
    by (rule pstep_upstream_close_calls [OF assms(4,5)])
next
  assume ascii: "\<forall>u\<in>set r. u < 0x80"
  then have "\<forall>u\<in>set (take 123 r). u < 0x80"
    by (meson in_set_takeD)
  then have len: "utf8_length (take 123 r) = length (take 123 r)"
    by (rule utf8_length_ascii)
  have full: "utf8_length r = length r"
    using ascii by (rule utf8_length_ascii)
  show "client_calls (step (UpstreamClose c r) s) =
          client_calls s @ [Close (safeCode c) (take 123 r)]"
    using step_upstream_close_calls [OF assms(1-3), of c r] len by simp
  show "utf8_length (take 123 r) = min 123 (utf8_length r)"
    using len full by simp
  show "123 < utf8_length r \<Longrightarrow> utf8_length (take 123 r) = 123"
    using len full by simp
qed

theorem upstream_close_propagation_witness:
  "client_calls (step (UpstreamClose 1006 (replicate 130 0x41))
      \<lparr>region = ''eu.moomoo.io'', stage = Wired, token_requests = 1,
        dialed = Some (''eu.moomoo.io'', tok0), upstreamReady = True, keepAlive = True,
        client_state = OPEN, upstream_state = Some OPEN, client_calls = [],
        upstream_calls = [], proxyUrl = None, messageQueue = []\<rparr>) =
     [Close 1000 (replicate 123 0x41)]
   \<and> utf8_length (take 123 (replicate 130 0x41)) = 123
   \<and> safeCode 4000 = 4000
   \<and> client_calls (snd (pstep (UpstreamClose 1006 (replicate 130 0x41))
      (one_proxy,
       \<lparr>region = ''eu.moomoo.io'', stage = Wired, token_requests = 1,
        dialed = Some (''eu.moomoo.io'', tok0), upstreamReady = True, keepAlive = True,
        client_state = OPEN, upstream_state = Some OPEN, client_calls = [],
        upstream_calls = [], proxyIdx = 0, pending = Some tok0,
        client_listeners = True\<rparr>))) = [ClosePlain]"
proof -
  let ?s = "\<lparr>region = ''eu.moomoo.io'', stage = Wired, token_requests = 1,
        dialed = Some (''eu.moomoo.io'', tok0), upstreamReady = True, keepAlive = True,
        client_state = OPEN, upstream_state = Some OPEN, client_calls = [],
        upstream_calls = [], proxyUrl = None, messageQueue = []\<rparr>"
  let ?p = "\<lparr>region = ''eu.moomoo.io'', stage = Wired, token_requests = 1,
        dialed = Some (''eu.moomoo.io'', tok0), upstreamReady = True, keepAlive = True,
        client_state = OPEN, upstream_state = Some OPEN, client_calls = [],
        upstream_calls = [], proxyIdx = 0, pending = Some tok0,
        client_listeners = True\<rparr>"
  have h: "client_state ?s = OPEN" "upstream_state ?s \<noteq> None" "upstream_state ?s \<noteq> Some CLOSED"
    "upstream_state ?p \<noteq> None" "upstream_state ?p \<noteq> Some CLOSED"
    by simp_all
  have ascii: "\<forall>u\<in>set (replicate 130 (0x41 :: 16 word)). u < 0x80"
    by simp
  have len: "utf8_length (replicate 130 (0x41 :: 16 word)) = 130"
    using utf8_length_ascii [OF ascii] by simp
  note T = upstream_close_propagation [OF h, of 1006 "replicate 130 0x41" one_proxy]
  have a: "safeCode 1006 = 1000"
    using T [THEN conjunct2, THEN conjunct1] by simp
  have b: "client_calls (step (UpstreamClose 1006 (replicate 130 0x41)) ?s) =
        [Close 1000 (replicate 123 0x41)]"
    using T [THEN conjunct2, THEN conjunct2, THEN conjunct2, THEN conjunct1] ascii a by simp
  have c: "utf8_length (take 123 (replicate 130 (0x41 :: 16 word))) = 123"
    using T [THEN conjunct2, THEN conjunct2, THEN conjunct2, THEN conjunct1] ascii len by simp
  have d: "client_calls (snd (pstep (UpstreamClose 1006 (replicate 130 0x41)) (one_proxy, ?p))) =
        [ClosePlain]"
    using T [THEN conjunct2, THEN conjunct2, THEN conjunct2, THEN conjunct2] by simp
  have e: "safeCode 4000 = 4000"
    using upstream_close_propagation [OF h, of 4000 "[]" one_proxy,
        THEN conjunct2, THEN conjunct2, THEN conjunct1] by simp
  show ?thesis using b c d e by blast
qed

text \<open>
  A reason of one hundred \<open>U+00E9\<close> is 100 code units and 200 bytes: \<open>index.js\<close> passes
  it on whole, the call throws, and the client is terminated. The pooled server answers
  an upstream close with code 1001 by a close without code.
\<close>

theorem close_propagation_counterexample:
  "map_option client_calls
     (session_after (connection (Some ''eu.moomoo.io'') no_proxies)
        [TokenResolved (Some tok0), UpstreamOpen, UpstreamClose 1000 (replicate 100 0xE9)]) =
     Some [Close 1000 (replicate 100 0xE9), Terminate]
   \<and> utf8_length (replicate 100 0xE9) = 200
   \<and> map_option (client_calls \<circ> snd)
     (psession_after (pconnection (Some ''eu.moomoo.io'') one_proxy)
        [TokenResolved (Some tok0), JitterElapsed, UpstreamOpen, UpstreamClose 1001 (lit ''bye'')]) =
     Some [ClosePlain]"
  by code_simp

section \<open>Properties of the relay sessions\<close>






























section \<open>The active count and the throttle under interleaving\<close>

text \<open>
  Claim C1 at a concrete session of the pooled server with one proxy: after the upstream
  opened the proxy's \<open>active\<close> count is 1; the client closes (\<open>onClientClose\<close> runs
  \<open>cleanup\<close>, count 0, and closes the upstream); the upstream's \<open>close\<close> event then runs
  \<open>cleanup\<close> again and the count is \<open>-1\<close>. When the upstream closes first, the client
  listeners are detached and the count stays at 0.
\<close>

theorem double_release:
  "map_option (map active \<circ> proxyState \<circ> fst)
     (psession_after (pconnection (Some ''eu.moomoo.io'') one_proxy)
        [TokenResolved (Some tok0), JitterElapsed, UpstreamOpen]) = Some [1]
   \<and> map_option (map active \<circ> proxyState \<circ> fst)
     (psession_after (pconnection (Some ''eu.moomoo.io'') one_proxy)
        [TokenResolved (Some tok0), JitterElapsed, UpstreamOpen, ClientClose]) = Some [0]
   \<and> map_option (map active \<circ> proxyState \<circ> fst)
     (psession_after (pconnection (Some ''eu.moomoo.io'') one_proxy)
        [TokenResolved (Some tok0), JitterElapsed, UpstreamOpen, ClientClose,
         UpstreamClose 1005 []]) = Some [- 1]
   \<and> map_option (map active \<circ> proxyState \<circ> fst)
     (psession_after (pconnection (Some ''eu.moomoo.io'') one_proxy)
        [TokenResolved (Some tok0), JitterElapsed, UpstreamOpen, UpstreamClose 1005 [],
         ClientClose]) = Some [0]"
  by code_simp

text \<open>
  What one consultation of the throttle computes: a caller that must wait is due exactly
  one window after the timestamp it read, and the timestamp is left as it was; a caller
  that need not wait finds the window already over and stamps the proxy itself.
\<close>

lemma throttle_enter_cases:
  assumes "0 \<le> i" and "nat i < length (proxyState g)"
  shows "(throttle_enter t i g = (Sleep u, g') \<longrightarrow>
            g' = g \<and> 0 < u \<and> t + u = lastTokenAt (proxyState g ! nat i) + TOKEN_RATE_WINDOW_MS)
       \<and> (throttle_enter t i g = (Proceed, g') \<longrightarrow>
            g' = stamp t i g \<and> lastTokenAt (proxyState g ! nat i) + TOKEN_RATE_WINDOW_MS \<le> t)"
  using assms by (auto simp add: throttle_enter_def Let_def split: if_splits)

text \<open>
  Claim C2 at a concrete schedule with one proxy: a first call fetches at once; two
  more calls enter 100 and 200 ms later, both read the first call's timestamp and sleep
  until 400 ms after it; both wake then, and both fetch in the same millisecond.
\<close>

theorem overlapping_fetches:
  "map_option fetches
     (sched_run [Enter 0 0 1000000, Enter 1 0 1000100, Enter 2 0 1000200,
                 Wake 1 1000400, Wake 2 1000400]
        \<lparr>shared = one_proxy, asleep = [], fetches = [], clock = 0\<rparr>) =
     Some [(0, 0, 1000000), (1, 0, 1000400), (2, 0, 1000400)]"
  by code_simp

end
